theory Spec2Isabelle
  imports Complex_Main "HOL-Library.Sublist"
begin

section \<open>Python exceptions\<close>

datatype error = ValueError | AssertionError | RuntimeError | IndexError | ZeroDivisionError

section \<open>The disk-backed memoisation decorator \<open>cached\<close>\<close>

text \<open>
  \<^verbatim>\<open>
  def cached(output_dir, results_name):
      def _cache(func):
          def func_wrapper(*args, **kwargs):
              results_file = os.path.join(output_dir, results_name)
              if not results_file.endswith(".pkl"):
                  results_file += ".pkl"
              if os.path.exists(results_file):
                  with open(results_file, "rb") as f:
                      results = pickle.load(f)
              else:
                  results = func(*args, **kwargs)
                  with open(results_file, "wb") as f:
                      pickle.dump(results, f)
              return results
  \<close>
  The file system is a map from paths to the objects pickled there; \<open>pickle.load\<close> gives
  back the object that \<open>pickle.dump\<close> stored. The wrapped function is side-effect free:
  a function of its arguments. The state also counts how often the body of the wrapped
  function has run. \<open>os.path.join\<close> and \<open>str.endswith\<close> are those of POSIX Python.
\<close>

definition endswith :: "string \<Rightarrow> string \<Rightarrow> bool" where
  "endswith s suf = (length suf \<le> length s \<and> drop (length s - length suf) s = suf)"

definition startswith :: "string \<Rightarrow> string \<Rightarrow> bool" where
  "startswith s pre = (take (length pre) s = pre)"

definition path_join :: "string \<Rightarrow> string \<Rightarrow> string" where
  "path_join a b =
     (if startswith b ''/'' then b
      else if a = [] \<or> endswith a ''/'' then a @ b
      else a @ ''/'' @ b)"

definition results_file :: "string \<Rightarrow> string \<Rightarrow> string" where
  "results_file output_dir results_name =
     (let f = path_join output_dir results_name
      in if \<not> endswith f ''.pkl'' then f @ ''.pkl'' else f)"

record 'v cache_state =
  files :: "string \<rightharpoonup> 'v"
  body_runs :: nat

definition func_wrapper ::
  "string \<Rightarrow> string \<Rightarrow> ('a \<Rightarrow> 'v) \<Rightarrow> 'a \<Rightarrow> 'v cache_state \<Rightarrow> 'v \<times> 'v cache_state" where
  "func_wrapper output_dir results_name func args st =
     (let f = results_file output_dir results_name
      in case files st f of
           Some results \<Rightarrow> (results, st)
         | None \<Rightarrow>
             (let results = func args
              in (results, st\<lparr>files := (files st)(f \<mapsto> results),
                               body_runs := Suc (body_runs st)\<rparr>)))"

section \<open>Sorting the states by usage in \<open>fit_model\<close>\<close>

text \<open>
  \<^verbatim>\<open>
  train_states = [model.most_likely_states(x, u) for x, u in zip(training_data, training_inputs)]
  usage = np.bincount(np.concatenate(train_states), minlength=num_discrete_states)
  model.permute(np.argsort(-usage))
  \<close>
  \<open>train_states\<close> is the list of decoded paths, one per training trial, each a list of
  state indices. \<open>np.concatenate\<close> raises \<open>ValueError\<close> on an empty list of arrays;
  \<open>np.bincount\<close> counts each value and pads with zeros up to \<open>minlength\<close>;
  indexing an array with an index array (\<open>np_take\<close>) is what \<open>model.permute\<close> does to
  every per-state parameter, so that the new state \<open>k\<close> is the old state \<open>perm[k]\<close>.

  \<open>np.argsort\<close> is called with its default \<open>kind\<close> (\<open>quicksort\<close>), which NumPy
  documents as not stable: its result is a permutation of the indices that sorts the
  array, and nothing more is promised. The sorting routine is therefore a parameter of
  the model, and \<open>argsort_ok\<close> is what NumPy promises of it. Two sorting routines that
  meet \<open>argsort_ok\<close> are given: \<open>insertion_argsort\<close>, which is stable, and
  \<open>reversing_argsort\<close>, which puts equal keys in descending index order.
\<close>

definition bincount :: "nat list \<Rightarrow> nat \<Rightarrow> int list" where
  "bincount x minlength =
     map (\<lambda>k. int (count_list x k))
       [0..<max minlength (if x = [] then 0 else Suc (fold max x 0))]"

definition np_concatenate :: "'a list list \<Rightarrow> error + 'a list" where
  "np_concatenate arrays = (if arrays = [] then Inl ValueError else Inr (concat arrays))"

definition np_take :: "'a list \<Rightarrow> nat list \<Rightarrow> 'a list" where
  "np_take a idx = map (\<lambda>i. a ! i) idx"

definition argsort_ok :: "(int list \<Rightarrow> nat list) \<Rightarrow> bool" where
  "argsort_ok argsort =
     (\<forall>a. distinct (argsort a) \<and> set (argsort a) = {0..<length a}
          \<and> sorted (np_take a (argsort a)))"

definition sort_states_by_usage ::
  "(int list \<Rightarrow> nat list) \<Rightarrow> nat list list \<Rightarrow> nat \<Rightarrow> error + (int list \<times> nat list)" where
  "sort_states_by_usage argsort train_states num_discrete_states =
     (case np_concatenate train_states of
        Inl e \<Rightarrow> Inl e
      | Inr zs \<Rightarrow>
          (let usage = bincount zs num_discrete_states
           in Inr (usage, argsort (map uminus usage))))"

definition insertion_argsort :: "int list \<Rightarrow> nat list" where
  "insertion_argsort a = sort_key (\<lambda>i. a ! i) [0..<length a]"




section \<open>Sampling from a fitted model: \<open>sample_arhmm\<close>\<close>

text \<open>
  \<^verbatim>\<open>
  def sample_arhmm(arhmm_orig, test_input, num_samples=100, with_noise=True):
      arhmm = copy.deepcopy(arhmm_orig)
      T = test_input.shape[0]
      z_smpls, x_smpls = [], []
      for smpl in trange(num_samples):
          z_smpl, x_smpl = arhmm.sample(T=T, input=test_input, with_noise=with_noise)
          z_smpls.append(z_smpl)
          x_smpls.append(x_smpl)
      x_smpl_mean = np.mean(x_smpls, axis=0)
      x_smpl_std = np.std(x_smpls, axis=0)
      return z_smpls, x_smpls
  \<close>
  Model objects live in a store: \<open>heap\<close> gives the contents of each reference and
  \<open>next_ref\<close> is the first reference not yet allocated. \<open>rng\<close> is the state of
  NumPy's global random number generator, seeded once when the module is imported.
  \<open>copy.deepcopy\<close> allocates a new object with the contents of the original. The
  library's \<open>sample\<close> method is a parameter: from the contents of its receiver, the
  length, the input, the noise flag and the generator state it gives the two sampled
  sequences, the new contents of the receiver (a method may change the object it is
  called on) and the new generator state. The input array is the list of its rows, so
  \<open>test_input.shape[0]\<close> is its length. The mean and standard deviation computed after
  the loop are not used and are left out.

  \<open>sample_lengths_ok\<close> is what the library promises of \<open>sample\<close>: both sequences have
  the length asked for. \<open>toy_sample\<close> is a small sampler that meets it, changes its
  receiver and advances the generator.
\<close>

record ('m, 'g) world =
  heap :: "nat \<Rightarrow> 'm"
  next_ref :: nat
  rng :: 'g

type_synonym ('m, 'u, 'x, 'g) sampler =
  "'m \<Rightarrow> nat \<Rightarrow> 'u list \<Rightarrow> bool \<Rightarrow> 'g \<Rightarrow> (nat list \<times> 'x list) \<times> 'm \<times> 'g"

definition deepcopy :: "('m, 'g) world \<Rightarrow> nat \<Rightarrow> nat \<times> ('m, 'g) world" where
  "deepcopy w r =
     (next_ref w, w\<lparr>heap := (heap w)(next_ref w := heap w r), next_ref := Suc (next_ref w)\<rparr>)"

fun sample_loop ::
  "('m, 'u, 'x, 'g) sampler \<Rightarrow> nat \<Rightarrow> 'u list \<Rightarrow> bool \<Rightarrow> nat \<Rightarrow> 'm \<Rightarrow> 'g
     \<Rightarrow> nat list list \<times> 'x list list \<Rightarrow> (nat list list \<times> 'x list list) \<times> 'm \<times> 'g" where
  "sample_loop sample T inp with_noise 0 m g (z_smpls, x_smpls) = ((z_smpls, x_smpls), m, g)"
| "sample_loop sample T inp with_noise (Suc n) m g (z_smpls, x_smpls) =
     (case sample m T inp with_noise g of
        ((z_smpl, x_smpl), m', g') \<Rightarrow>
          sample_loop sample T inp with_noise n m' g' (z_smpls @ [z_smpl], x_smpls @ [x_smpl]))"

definition sample_arhmm ::
  "('m, 'u, 'x, 'g) sampler \<Rightarrow> nat \<Rightarrow> 'u list \<Rightarrow> nat \<Rightarrow> bool \<Rightarrow> ('m, 'g) world
     \<Rightarrow> (nat list list \<times> 'x list list) \<times> ('m, 'g) world" where
  "sample_arhmm sample arhmm_orig test_input num_samples with_noise w =
     (case deepcopy w arhmm_orig of
        (arhmm, w1) \<Rightarrow>
          (let T = length test_input
           in case sample_loop sample T test_input with_noise num_samples
                     (heap w1 arhmm) (rng w1) ([], []) of
                (smpls, m', g') \<Rightarrow> (smpls, w1\<lparr>heap := (heap w1)(arhmm := m'), rng := g'\<rparr>)))"

definition sample_lengths_ok :: "('m, 'u, 'x, 'g) sampler \<Rightarrow> bool" where
  "sample_lengths_ok sample =
     (\<forall>m T inp with_noise g.
        length (fst (fst (sample m T inp with_noise g))) = T
      \<and> length (snd (fst (sample m T inp with_noise g))) = T)"

definition toy_sample :: "(nat, int, int, nat) sampler" where
  "toy_sample m T inp with_noise g =
     ((map (\<lambda>t. (g + t) mod 3) [0..<T],
       map (\<lambda>t. (if with_noise then int ((g + 7 * t) mod 5) else 0)
                 + (if t < length inp then inp ! t else 0)) [0..<T]),
      Suc m, g + T + 1)"

section \<open>The checks of \<open>make_hollywood_movie\<close>\<close>

text \<open>
  \<^verbatim>\<open>
  FFMpegWriter = manimation.writers['ffmpeg']                       # line 255
  ...
  N_samples = len(decoded_image_stacks)
  assert N_samples < 10                                            # line 261
  if same_vlim:
      vmin = real_image_stack.min() * np.ones(N_samples + 1)       # line 265
      vmax = real_image_stack.max() * np.ones(N_samples + 1)
  else:
      vmin = [real_image_stack.min()] + [np.percentile(stack, 0) for stack in ...]       # 268
      vmax = [real_image_stack.max()] + [np.percentile(stack, 99.99) for stack in ...]
  if titles is None:
      titles = ["Real"] + ["Decoded {}".format(j + 1) for j in range(N_samples)]
  else:
      assert len(titles) == N_samples + 1                          # line 274
  fig_dim_div = decoded_image_stacks[0].shape[2]*(N_samples+1)/10  # line 276
  fig = plt.figure(figsize=(.../fig_dim_div, .../fig_dim_div))     # line 278
  ... draw the first frame, then write one frame per time step ...
  \<close>
  The control flow depends on the arrays through their shapes only, so an image stack is
  its shape. The result is the exception raised, if any, with the line that raised it,
  and the drawing effects performed up to then. What the libraries do is a parameter:
  whether matplotlib has an \<open>ffmpeg\<close> writer (the lookup raises \<open>RuntimeError\<close>
  otherwise), whether \<open>np.percentile\<close> raises on a stack, and the drawing and writing of
  lines 280 to 318. \<open>min\<close> and \<open>max\<close> of an array without elements raise
  \<open>ValueError\<close>; the first element of an empty list and the third entry of a shape of
  fewer than three dimensions raise \<open>IndexError\<close>; dividing by \<open>fig_dim_div = 0.0\<close>
  raises \<open>ZeroDivisionError\<close>. \<open>plain_libs\<close> is a set of libraries in which every
  call succeeds.
\<close>

type_synonym shape = "nat list"

datatype effect = NewFigure | DrawImage nat | GrabFrame nat

record movie_args =
  real_image_stack :: shape
  decoded_image_stacks :: "shape list"
  titles :: "string list option"
  same_vlim :: bool

record movie_libs =
  ffmpeg_available :: bool
  np_percentile :: "shape \<Rightarrow> error option"
  draw_and_write :: "movie_args \<Rightarrow> (error \<times> nat) option \<times> effect list"

definition vlims :: "movie_libs \<Rightarrow> movie_args \<Rightarrow> (error \<times> nat) option" where
  "vlims libs args =
     (if same_vlim args then
        (if prod_list (real_image_stack args) = 0 then Some (ValueError, 265) else None)
      else if prod_list (real_image_stack args) = 0 then Some (ValueError, 268)
      else (case List.find (\<lambda>stack. np_percentile libs stack \<noteq> None) (decoded_image_stacks args) of
              None \<Rightarrow> None
            | Some stack \<Rightarrow> map_option (\<lambda>e. (e, 268)) (np_percentile libs stack)))"

definition make_hollywood_movie ::
  "movie_libs \<Rightarrow> movie_args \<Rightarrow> (error \<times> nat) option \<times> effect list" where
  "make_hollywood_movie libs args =
     (if \<not> ffmpeg_available libs then (Some (RuntimeError, 255), [])
      else
        let N_samples = length (decoded_image_stacks args)
        in if \<not> N_samples < 10 then (Some (AssertionError, 261), [])
           else case vlims libs args of
                  Some raised \<Rightarrow> (Some raised, [])
                | None \<Rightarrow>
                    if (case titles args of
                          None \<Rightarrow> False
                        | Some ts \<Rightarrow> \<not> length ts = N_samples + 1)
                    then (Some (AssertionError, 274), [])
                    else case decoded_image_stacks args of
                           [] \<Rightarrow> (Some (IndexError, 276), [])
                         | stack0 # _ \<Rightarrow>
                             if length stack0 < 3 then (Some (IndexError, 276), [])
                             else if stack0 ! 2 * (N_samples + 1) = 0
                               then (Some (ZeroDivisionError, 278), [])
                             else (case draw_and_write libs args of
                                     (raised, effects) \<Rightarrow> (raised, NewFigure # effects)))"

definition plain_libs :: movie_libs where
  "plain_libs = \<lparr>ffmpeg_available = True, np_percentile = (\<lambda>_. None),
     draw_and_write = (\<lambda>args. (None,
        map DrawImage [0..<Suc (length (decoded_image_stacks args))]
        @ (case real_image_stack args of [] \<Rightarrow> [] | n_frames # _ \<Rightarrow> map GrabFrame [1..<n_frames])))\<rparr>"

section \<open>Firing rates and principal components: \<open>preprocess_neural_data\<close>\<close>

text \<open>
  \<^verbatim>\<open>
  def preprocess_neural_data(neural_data, fs=40, window=0.1):
      [n_trials, trial_length, n_neurons] = neural_data.shape
      filter_size = int(window * fs)
      rates = gaussian_filter1d(neural_data, filter_size, axis=1) * fs
      max_rates = np.max(np.max(rates, axis=0),axis=0)
      normalized_rates = rates / max_rates
      pca = PCA(20)
      pca.fit(normalized_rates.reshape((n_trials*trial_length,n_neurons)))
      lowd_neural_data = pca.transform(normalized_rates.reshape((n_trials*trial_length,n_neurons)))
      return normalized_rates, lowd_neural_data.reshape((n_trials,trial_length,20)), pca, max_rates
  \<close>
  An array is its shape \<open>dims\<close> and its entries \<open>vals\<close> in row-major order, as NumPy
  stores them; it is well shaped when the number of entries is the product of the
  dimensions. Floating-point numbers are modelled as reals.

  \<^item> Unpacking \<open>neural_data.shape\<close> into three names raises \<open>ValueError\<close> unless the array
    has three dimensions.
  \<^item> \<open>gaussian_filter1d\<close> is a parameter of the model. \<open>smoother_ok\<close> is what is used
    of it: the result has the shape of the input, and smoothing non-negative counts with
    the positive Gaussian weights gives non-negative values.
  \<^item> \<open>np.max(a, axis=0)\<close> is the entrywise maximum over the slices along the first axis. It
    raises \<open>ValueError\<close> when that axis has length zero and the result would have entries.
  \<^item> \<open>rates / max_rates\<close> broadcasts \<open>max_rates\<close> along the last axis. A zero peak makes every
    entry of that neuron infinite or not a number (NumPy only warns), and \<open>PCA.fit\<close>
    rejects input that is not finite with \<open>ValueError\<close>.
  \<^item> \<open>reshape\<close> keeps the entries and raises \<open>ValueError\<close> when the sizes differ.
  \<^item> \<open>PCA(20).fit\<close> raises \<open>ValueError\<close> unless the number of components is at most both
    the number of samples and the number of features; \<open>transform\<close> then gives one row of 20
    components per sample. The projection itself is not modelled: of
    \<open>lowd_neural_data\<close> only the shape is returned, and the \<open>pca\<close> object is left out.

  \<open>no_smoothing\<close> is the smoother that returns its input (as the Gaussian filter does on
  a constant array). \<open>demo_counts\<close> is an array of positive counts with 2 trials, 10 time
  steps and 20 neurons; \<open>short_counts\<close> is one trial of 19 time steps and 20 neurons in
  which every count is 1.
\<close>

record ndarray =
  dims :: "nat list"
  vals :: "real list"

definition well_shaped :: "ndarray \<Rightarrow> bool" where
  "well_shaped a = (length (vals a) = prod_list (dims a))"

definition py_int :: "real \<Rightarrow> int" where
  "py_int x = (if 0 \<le> x then \<lfloor>x\<rfloor> else \<lceil>x\<rceil>)"

definition rows :: "nat \<Rightarrow> nat \<Rightarrow> 'a list \<Rightarrow> 'a list list" where
  "rows n m xs = map (\<lambda>i. take m (drop (i * m) xs)) [0..<n]"

definition elementwise_max :: "real list list \<Rightarrow> real list" where
  "elementwise_max rws =
     (case rws of [] \<Rightarrow> [] | r # rs \<Rightarrow> fold (\<lambda>row acc. map2 max acc row) rs r)"

definition np_amax0 :: "ndarray \<Rightarrow> error + ndarray" where
  "np_amax0 a =
     (case dims a of
        [] \<Rightarrow> Inl ValueError
      | n # rest \<Rightarrow>
          if n = 0 \<and> prod_list rest \<noteq> 0 then Inl ValueError
          else Inr \<lparr>dims = rest, vals = elementwise_max (rows n (prod_list rest) (vals a))\<rparr>)"

definition np_reshape :: "ndarray \<Rightarrow> nat list \<Rightarrow> error + ndarray" where
  "np_reshape a new_dims =
     (if prod_list new_dims = prod_list (dims a) then Inr (a\<lparr>dims := new_dims\<rparr>)
      else Inl ValueError)"

definition divide_last_axis :: "ndarray \<Rightarrow> ndarray \<Rightarrow> ndarray" where
  "divide_last_axis a b =
     a\<lparr>vals := map (\<lambda>k. vals a ! k / vals b ! (k mod length (vals b))) [0..<length (vals a)]\<rparr>"

definition pca_fit_transform_dims :: "nat \<Rightarrow> nat list \<Rightarrow> error + nat list" where
  "pca_fit_transform_dims n_components X_dims =
     (case X_dims of
        [n_samples, n_features] \<Rightarrow>
          if n_components \<le> min n_samples n_features then Inr [n_samples, n_components]
          else Inl ValueError
      | _ \<Rightarrow> Inl ValueError)"

type_synonym smoother = "ndarray \<Rightarrow> int \<Rightarrow> nat \<Rightarrow> ndarray"

definition normalize_rates ::
  "smoother \<Rightarrow> ndarray \<Rightarrow> real \<Rightarrow> real \<Rightarrow> error + (ndarray \<times> ndarray \<times> ndarray)" where
  "normalize_rates gaussian_filter1d neural_data fs window =
     (let filter_size = py_int (window * fs);
          smoothed = gaussian_filter1d neural_data filter_size 1;
          rates = smoothed\<lparr>vals := map (\<lambda>v. v * fs) (vals smoothed)\<rparr>
      in case np_amax0 rates of
           Inl e \<Rightarrow> Inl e
         | Inr over_trials \<Rightarrow>
             (case np_amax0 over_trials of
                Inl e \<Rightarrow> Inl e
              | Inr max_rates \<Rightarrow> Inr (rates, max_rates, divide_last_axis rates max_rates)))"

definition preprocess_neural_data ::
  "smoother \<Rightarrow> ndarray \<Rightarrow> real \<Rightarrow> real \<Rightarrow> error + (ndarray \<times> nat list \<times> ndarray)" where
  "preprocess_neural_data gaussian_filter1d neural_data fs window =
     (case dims neural_data of
        [n_trials, trial_length, n_neurons] \<Rightarrow>
          (case normalize_rates gaussian_filter1d neural_data fs window of
             Inl e \<Rightarrow> Inl e
           | Inr (rates, max_rates, normalized_rates) \<Rightarrow>
               (case np_reshape normalized_rates [n_trials * trial_length, n_neurons] of
                  Inl e \<Rightarrow> Inl e
                | Inr X \<Rightarrow>
                    if 0 \<in> set (vals max_rates) then Inl ValueError
                    else
                      (case pca_fit_transform_dims 20 (dims X) of
                         Inl e \<Rightarrow> Inl e
                       | Inr lowd_dims \<Rightarrow>
                           if prod_list [n_trials, trial_length, 20] = prod_list lowd_dims
                           then Inr (normalized_rates, [n_trials, trial_length, 20], max_rates)
                           else Inl ValueError)))
      | _ \<Rightarrow> Inl ValueError)"

definition smoother_ok :: "smoother \<Rightarrow> bool" where
  "smoother_ok f =
     (\<forall>a sigma axis.
        dims (f a sigma axis) = dims a
      \<and> length (vals (f a sigma axis)) = length (vals a)
      \<and> ((\<forall>v \<in> set (vals a). 0 \<le> v) \<longrightarrow> (\<forall>v \<in> set (vals (f a sigma axis)). 0 \<le> v)))"

definition no_smoothing :: smoother where
  "no_smoothing a sigma axis = a"

definition demo_counts :: ndarray where
  "demo_counts = \<lparr>dims = [2, 10, 20], vals = map (\<lambda>k. real (Suc (k mod 7))) [0..<400]\<rparr>"

definition short_counts :: ndarray where
  "short_counts = \<lparr>dims = [1, 19, 20], vals = replicate 380 1\<rparr>"

section \<open>Properties of \<open>cached\<close>\<close>

lemma endswith_suffix: "endswith s suf = suffix suf s"
proof
  assume "endswith s suf"
  then have "s = take (length s - length suf) s @ suf"
    by (metis append_take_drop_id endswith_def)
  then show "suffix suf s"
    by (metis suffixI)
next
  assume "suffix suf s"
  then obtain p where "s = p @ suf"
    by (auto simp: suffix_def)
  then show "endswith s suf"
    by (simp add: endswith_def)
qed

lemma endswith_append_same: "endswith (s @ suf) suf"
  by (simp add: endswith_def)

lemma endswith_pkl_sep:
  "endswith (a @ CHR ''/'' # b) ''.pkl'' = endswith b ''.pkl''"
  unfolding endswith_suffix
  apply (simp add: suffix_append suffix_Cons)
  apply (auto simp: append_eq_Cons_conv Cons_eq_append_conv suffix_def)
  done

lemma endswith_pkl_join:
  "endswith (path_join d n) ''.pkl'' = endswith n ''.pkl''"
proof (cases "startswith n ''/''")
  case True
  then show ?thesis by (simp add: path_join_def)
next
  case nabs: False
  show ?thesis
  proof (cases d rule: rev_cases)
    case Nil
    then show ?thesis using nabs by (simp add: path_join_def)
  next
    case (snoc d' c)
    show ?thesis
    proof (cases "c = CHR ''/''")
      case True
      then show ?thesis
        using nabs snoc endswith_pkl_sep [of d' n]
        by (simp add: path_join_def endswith_append_same [of d' "''/''"] endswith_def)
    next
      case False
      then have "\<not> endswith d ''/''"
        using snoc by (simp add: endswith_def)
      then show ?thesis
        using nabs snoc endswith_pkl_sep [of d n]
        by (simp add: path_join_def)
    qed
  qed
qed

lemma path_join_append:
  "\<not> startswith s ''/'' \<Longrightarrow> path_join d (n @ s) = path_join d n @ s"
  apply (cases n)
   apply (auto simp: path_join_def startswith_def)
  done

lemma results_file_name:
  "results_file d n = path_join d (if endswith n ''.pkl'' then n else n @ ''.pkl'')"
  by (simp add: results_file_def Let_def endswith_pkl_join path_join_append startswith_def)

lemma func_wrapper_hit:
  "files st (results_file d n) = Some r \<Longrightarrow> func_wrapper d n f a st = (r, st)"
  by (simp add: func_wrapper_def)

lemma func_wrapper_stored:
  "files (snd (func_wrapper d n f a st)) (results_file d n) = Some (fst (func_wrapper d n f a st))"
  by (simp add: func_wrapper_def Let_def split: option.split)

lemma func_wrapper_runs:
  "body_runs (snd (func_wrapper d n f a st)) \<le> Suc (body_runs st)"
  by (simp add: func_wrapper_def Let_def split: option.split)

text \<open>
  Claim C1. For every key (output directory and results name) and every side-effect-free
  wrapped function, the second of two calls of the decorated function with the same key
  returns what the first call returned, whatever the arguments of the two calls; the
  second call is served from the stored entry and leaves the state as the first call left
  it, so the body of the wrapped function runs at most once over the two calls.
\<close>

theorem cached_same_key_same_result:
  "fst (func_wrapper d n f a2 (snd (func_wrapper d n f a1 st))) = fst (func_wrapper d n f a1 st)
   \<and> body_runs (snd (func_wrapper d n f a2 (snd (func_wrapper d n f a1 st)))) \<le> body_runs st + 1
   \<and> func_wrapper d n f a2 (snd (func_wrapper d n f a1 st))
       = (fst (func_wrapper d n f a1 st), snd (func_wrapper d n f a1 st))"
proof -
  let ?c1 = "func_wrapper d n f a1 st"
  have stored: "files (snd ?c1) (results_file d n) = Some (fst ?c1)"
    by (rule func_wrapper_stored)
  have second: "func_wrapper d n f a2 (snd ?c1) = (fst ?c1, snd ?c1)"
    using stored by (rule func_wrapper_hit)
  have runs: "body_runs (snd ?c1) \<le> body_runs st + 1"
    using func_wrapper_runs [of d n f a1 st] by simp
  show ?thesis
    using second runs by simp
qed

text \<open>Two calls under the key \<open>out\<close>, \<open>fit\<close> with different arguments, on an empty directory.\<close>

theorem cached_same_key_same_result_witness:
  "func_wrapper ''out'' ''fit'' (\<lambda>k. 2 * k) (3::int) \<lparr>files = Map.empty, body_runs = 0\<rparr>
     = (6, \<lparr>files = [''out/fit.pkl'' \<mapsto> 6], body_runs = 1\<rparr>)
   \<and> fst (func_wrapper ''out'' ''fit'' (\<lambda>k. 2 * k) (10::int)
          (snd (func_wrapper ''out'' ''fit'' (\<lambda>k. 2 * k) (3::int)
                 \<lparr>files = Map.empty, body_runs = 0\<rparr>))) = (6::int)
   \<and> body_runs (snd (func_wrapper ''out'' ''fit'' (\<lambda>k. 2 * k) (10::int)
          (snd (func_wrapper ''out'' ''fit'' (\<lambda>k. 2 * k) (3::int)
                 \<lparr>files = Map.empty, body_runs = 0\<rparr>)))) = 1"
proof -
  have first: "func_wrapper ''out'' ''fit'' (\<lambda>k. 2 * k) (3::int) \<lparr>files = Map.empty, body_runs = 0\<rparr>
     = (6, \<lparr>files = [''out/fit.pkl'' \<mapsto> 6], body_runs = 1\<rparr>)"
    by (simp add: endswith_def path_join_def startswith_def func_wrapper_def results_file_def Let_def)
  show ?thesis
    using cached_same_key_same_result [of "''out''" "''fit''" "\<lambda>k. 2 * k" "10::int" "3::int"
        "\<lparr>files = Map.empty, body_runs = 0\<rparr>"]
    unfolding first by simp
qed

text \<open>
  Claim C10. The suffix \<open>.pkl\<close> is appended exactly when the results name does not end
  in it already: the file used is the join of the output directory with the name so
  completed. Hence, for every output directory, a name \<open>x\<close> that does not end in
  \<open>.pkl\<close> and the name \<open>x.pkl\<close> denote the same entry: a call under one key after
  a call under the other returns the result stored by the first, in either order.
\<close>

theorem cached_pkl_suffix_same_entry:
  "results_file d n = path_join d (if endswith n ''.pkl'' then n else n @ ''.pkl'')
   \<and> (\<not> endswith n ''.pkl'' \<longrightarrow>
        results_file d (n @ ''.pkl'') = results_file d n
      \<and> func_wrapper d (n @ ''.pkl'') g b (snd (func_wrapper d n f a st))
          = (fst (func_wrapper d n f a st), snd (func_wrapper d n f a st))
      \<and> func_wrapper d n f a (snd (func_wrapper d (n @ ''.pkl'') g b st))
          = (fst (func_wrapper d (n @ ''.pkl'') g b st), snd (func_wrapper d (n @ ''.pkl'') g b st)))"
proof -
  have name: "results_file d n = path_join d (if endswith n ''.pkl'' then n else n @ ''.pkl'')"
    by (rule results_file_name)
  have same: "results_file d (n @ ''.pkl'') = results_file d n" if "\<not> endswith n ''.pkl''"
    using that by (simp add: results_file_name endswith_append_same)
  have fwd: "func_wrapper d (n @ ''.pkl'') g b (snd (func_wrapper d n f a st))
          = (fst (func_wrapper d n f a st), snd (func_wrapper d n f a st))" if "\<not> endswith n ''.pkl''"
    using func_wrapper_stored [of d n f a st] same [OF that]
    by (intro func_wrapper_hit) simp
  have bwd: "func_wrapper d n f a (snd (func_wrapper d (n @ ''.pkl'') g b st))
          = (fst (func_wrapper d (n @ ''.pkl'') g b st), snd (func_wrapper d (n @ ''.pkl'') g b st))"
    if "\<not> endswith n ''.pkl''"
    using func_wrapper_stored [of d "n @ ''.pkl''" g b st] same [OF that]
    by (intro func_wrapper_hit) simp
  show ?thesis
    using name same fwd bwd by blast
qed

text \<open>The names \<open>x\<close> and \<open>x.pkl\<close> under the directory \<open>out\<close>.\<close>

theorem cached_pkl_suffix_same_entry_witness:
  "results_file ''out'' ''x'' = ''out/x.pkl''
   \<and> results_file ''out'' ''x.pkl'' = ''out/x.pkl''
   \<and> func_wrapper ''out'' ''x.pkl'' (\<lambda>k. k + 1) (5::int)
        (snd (func_wrapper ''out'' ''x'' (\<lambda>k. 2 * k) 3 \<lparr>files = Map.empty, body_runs = 0\<rparr>))
      = (6, snd (func_wrapper ''out'' ''x'' (\<lambda>k. 2 * k) 3 \<lparr>files = Map.empty, body_runs = 0\<rparr>))"
  using cached_pkl_suffix_same_entry [of "''out''" "''x''" "\<lambda>k. k + 1" "5::int" "\<lambda>k. 2 * k" 3
      "\<lparr>files = Map.empty, body_runs = 0\<rparr>"]
  by (simp add: endswith_def path_join_def startswith_def func_wrapper_def results_file_def)

section \<open>Properties of the relabelling in \<open>fit_model\<close>\<close>

lemma insertion_argsort_ok: "argsort_ok insertion_argsort"
  by (auto simp: argsort_ok_def insertion_argsort_def np_take_def)

lemma np_take_uminus:
  "set idx \<subseteq> {0..<length a} \<Longrightarrow>
     np_take (map uminus (a :: int list)) idx = map uminus (np_take a idx)"
  by (induction idx) (simp_all add: np_take_def)

lemma sorted_uminus_nonincreasing:
  "sorted (map uminus (xs :: int list)) \<Longrightarrow> sorted_wrt (\<lambda>a b. b \<le> a) xs"
  by (induction xs) simp_all

lemma neg_sorted_nonincreasing:
  assumes "sorted (np_take (map uminus usage) perm)" and "set perm \<subseteq> {0..<length usage}"
  shows "sorted_wrt (\<lambda>a b. b \<le> a) (np_take (usage :: int list) perm)"
  using assms by (simp add: np_take_uminus sorted_uminus_nonincreasing)





text \<open>
  Claim C2. Whatever the decoded training paths and the number of states, and whichever
  sorting routine meeting NumPy's contract is used, the occupancy counts read in the new
  state order (\<open>usage[perm]\<close> with \<open>perm = argsort(-usage)\<close>) are non-increasing.
\<close>

theorem relabel_usage_nonincreasing:
  assumes "argsort_ok argsort"
    and "sort_states_by_usage argsort train_states K = Inr (usage, perm)"
  shows "sorted_wrt (\<lambda>a b. b \<le> a) (np_take usage perm)"
proof -
  have perm: "perm = argsort (map uminus usage)"
    using assms(2) by (auto simp: sort_states_by_usage_def Let_def split: sum.splits)
  have "sorted (np_take (map uminus usage) perm)" "set perm \<subseteq> {0..<length usage}"
    using assms(1) perm by (auto simp: argsort_ok_def)
  then show ?thesis by (rule neg_sorted_nonincreasing)
qed


text \<open>Two trials over four states, sorted with the insertion argsort.\<close>

theorem relabel_usage_nonincreasing_witness:
  "argsort_ok insertion_argsort
   \<and> sort_states_by_usage insertion_argsort [[0, 2, 2, 1], [2, 2, 0]] 4
       = Inr ([2, 1, 4, 0], [2, 0, 1, 3])
   \<and> sorted_wrt (\<lambda>a b. b \<le> a) (np_take [2, 1, 4, 0 :: int] [2, 0, 1, 3])"
proof -
  have run: "sort_states_by_usage insertion_argsort [[0, 2, 2, 1], [2, 2, 0]] 4
       = Inr ([2, 1, 4, 0], [2, 0, 1, 3])"
    by (simp add: sort_states_by_usage_def np_concatenate_def bincount_def insertion_argsort_def
        upt_rec)
  show ?thesis
    using insertion_argsort_ok run relabel_usage_nonincreasing [OF insertion_argsort_ok run]
    by simp
qed




section \<open>Properties of \<open>sample_arhmm\<close>\<close>

lemma sample_loop_lengths:
  "sample_loop sample T inp wn n m g (zs, xs) = ((zs', xs'), m', g') \<Longrightarrow>
     length zs' = length zs + n \<and> length xs' = length xs + n"
proof (induction n arbitrary: m g zs xs)
  case 0
  then show ?case by simp
next
  case (Suc n)
  obtain z x m1 g1 where s: "sample m T inp wn g = ((z, x), m1, g1)"
    by (cases "sample m T inp wn g") auto
  have "sample_loop sample T inp wn n m1 g1 (zs @ [z], xs @ [x]) = ((zs', xs'), m', g')"
    using Suc.prems s by simp
  from Suc.IH [OF this] show ?case by simp
qed

lemma sample_loop_elems:
  assumes "sample_lengths_ok sample"
    and "sample_loop sample T inp wn n m g (zs, xs) = ((zs', xs'), m', g')"
    and "\<forall>z \<in> set zs. length z = T" and "\<forall>x \<in> set xs. length x = T"
  shows "(\<forall>z \<in> set zs'. length z = T) \<and> (\<forall>x \<in> set xs'. length x = T)"
  using assms(2-)
proof (induction n arbitrary: m g zs xs)
  case 0
  then show ?case by simp
next
  case (Suc n)
  obtain z x m1 g1 where s: "sample m T inp wn g = ((z, x), m1, g1)"
    by (cases "sample m T inp wn g") auto
  have "length (fst (fst (sample m T inp wn g))) = T"
       "length (snd (fst (sample m T inp wn g))) = T"
    using assms(1) unfolding sample_lengths_ok_def by blast+
  then have len: "length z = T" "length x = T"
    using s by simp_all
  have loop: "sample_loop sample T inp wn n m1 g1 (zs @ [z], xs @ [x]) = ((zs', xs'), m', g')"
    using Suc.prems(1) s by simp
  have "\<forall>z' \<in> set (zs @ [z]). length z' = T" "\<forall>x' \<in> set (xs @ [x]). length x' = T"
    using Suc.prems(2,3) len by simp_all
  with Suc.IH [OF loop] show ?case by blast
qed

lemma sample_arhmm_loop:
  "fst (sample_arhmm sample r test_input N with_noise w)
     = fst (sample_loop sample (length test_input) test_input with_noise N
              (heap w r) (rng w) ([], []))"
  by (simp add: sample_arhmm_def deepcopy_def Let_def case_prod_beta)

lemma toy_sample_lengths_ok: "sample_lengths_ok toy_sample"
  by (simp add: sample_lengths_ok_def toy_sample_def)

lemma toy_loop:
  "sample_loop toy_sample (Suc (Suc (Suc 0))) [10, 20, 30] True 2 3 0 ([], [])
     = (([[0, 1, 2], [1, 2, 0]], [[10, 22, 34], [14, 21, 33]]), 5, 8)"
  by code_simp

lemma toy_run:
  "sample_arhmm toy_sample 0 [10, 20, 30] 2 True \<lparr>heap = (\<lambda>_. 3), next_ref = 1, rng = 0\<rparr>
     = (([[0, 1, 2], [1, 2, 0]], [[10, 22, 34], [14, 21, 33]]),
        \<lparr>heap = (\<lambda>_. 3)(1 := 5), next_ref = 2, rng = 8\<rparr>)"
  by (simp add: sample_arhmm_def deepcopy_def Let_def toy_loop)

text \<open>
  Claim C6. For every fitted model, input sequence of length \<open>T\<close> and sample count
  \<open>N\<close>, \<open>sample_arhmm\<close> returns two lists of length \<open>N\<close>; for every \<open>i < N\<close> the
  \<open>i\<close>-th discrete path and the \<open>i\<close>-th continuous trajectory have length \<open>T\<close>,
  given that the library's sampler returns sequences of the length it is asked for.
\<close>

theorem sample_arhmm_shapes:
  assumes "sample_lengths_ok sample"
  shows "length (fst (fst (sample_arhmm sample arhmm_orig test_input N with_noise w))) = N
     \<and> length (snd (fst (sample_arhmm sample arhmm_orig test_input N with_noise w))) = N
     \<and> (\<forall>i < N.
           length (fst (fst (sample_arhmm sample arhmm_orig test_input N with_noise w)) ! i)
             = length test_input
         \<and> length (snd (fst (sample_arhmm sample arhmm_orig test_input N with_noise w)) ! i)
             = length test_input)"
proof -
  let ?T = "length test_input"
  obtain z_smpls x_smpls m' g' where loop:
    "sample_loop sample ?T test_input with_noise N (heap w arhmm_orig) (rng w) ([], [])
       = ((z_smpls, x_smpls), m', g')"
    by (metis prod.exhaust)
  have res: "fst (sample_arhmm sample arhmm_orig test_input N with_noise w) = (z_smpls, x_smpls)"
    by (simp add: sample_arhmm_loop loop)
  have len: "length z_smpls = N" "length x_smpls = N"
    using sample_loop_lengths [OF loop] by simp_all
  have "(\<forall>z \<in> set z_smpls. length z = ?T) \<and> (\<forall>x \<in> set x_smpls. length x = ?T)"
    using sample_loop_elems [OF assms loop] by simp
  then have "\<forall>i < N. length (z_smpls ! i) = ?T \<and> length (x_smpls ! i) = ?T"
    using len by (metis nth_mem)
  then show ?thesis
    using len res by simp
qed

text \<open>Two samples of length three from the toy sampler.\<close>

theorem sample_arhmm_shapes_witness:
  "sample_lengths_ok toy_sample
   \<and> fst (sample_arhmm toy_sample 0 [10, 20, 30] 2 True \<lparr>heap = (\<lambda>_. 3), next_ref = 1, rng = 0\<rparr>)
       = ([[0, 1, 2], [1, 2, 0]], [[10, 22, 34], [14, 21, 33]])
   \<and> length (fst (fst (sample_arhmm toy_sample 0 [10, 20, 30] 2 True
                \<lparr>heap = (\<lambda>_. 3), next_ref = 1, rng = 0\<rparr>))) = 2"
  using toy_sample_lengths_ok toy_run
    sample_arhmm_shapes [OF toy_sample_lengths_ok, of 0 "[10, 20, 30]" 2 True
      "\<lparr>heap = (\<lambda>_. 3), next_ref = 1, rng = 0\<rparr>"]
  by simp

text \<open>
  Claim C7. \<open>sample_arhmm\<close> leaves the model passed to it unchanged: the sampler is
  only ever called on the deep copy, so the contents of the original after the call are
  its contents before the call, even when the sampler changes its receiver.
\<close>

theorem sample_arhmm_keeps_model:
  assumes "arhmm_orig < next_ref w"
  shows "heap (snd (sample_arhmm sample arhmm_orig test_input N with_noise w)) arhmm_orig
       = heap w arhmm_orig"
  using assms by (simp add: sample_arhmm_def deepcopy_def Let_def case_prod_beta)

text \<open>The toy sampler changes the copy (reference 1) and not the original (reference 0).\<close>

theorem sample_arhmm_keeps_model_witness:
  "(0::nat) < next_ref \<lparr>heap = (\<lambda>_. 3::nat), next_ref = 1, rng = 0::nat\<rparr>
   \<and> heap (snd (sample_arhmm toy_sample 0 [10, 20, 30] 2 True
              \<lparr>heap = (\<lambda>_. 3), next_ref = 1, rng = 0\<rparr>)) 0 = 3
   \<and> heap (snd (sample_arhmm toy_sample 0 [10, 20, 30] 2 True
              \<lparr>heap = (\<lambda>_. 3), next_ref = 1, rng = 0\<rparr>)) 1 = 5"
  using toy_run
    sample_arhmm_keeps_model [of 0 "\<lparr>heap = (\<lambda>_. 3::nat), next_ref = 1, rng = 0::nat\<rparr>"
      toy_sample "[10, 20, 30]" 2 True]
  by simp



section \<open>Properties of \<open>make_hollywood_movie\<close>\<close>

lemma vlims_lines:
  "vlims libs args = Some (e, l) \<Longrightarrow> l = 265 \<or> l = 268"
  by (auto simp: vlims_def split: if_splits option.splits)

lemma movie_first_check:
  "ffmpeg_available libs \<Longrightarrow>
     (make_hollywood_movie libs args = (Some (AssertionError, 261), []))
       = (10 \<le> length (decoded_image_stacks args))"
  by (auto simp: make_hollywood_movie_def Let_def vlims_def
      split: option.splits list.splits prod.splits if_splits)

lemma movie_second_check:
  "(make_hollywood_movie libs args = (Some (AssertionError, 274), []))
       = (ffmpeg_available libs \<and> length (decoded_image_stacks args) < 10
          \<and> vlims libs args = None
          \<and> (\<exists>ts. titles args = Some ts
                  \<and> length ts \<noteq> length (decoded_image_stacks args) + 1))"
  by (auto simp: make_hollywood_movie_def Let_def dest: vlims_lines
      split: option.splits list.splits prod.splits if_splits)

text \<open>
  Claim C9 says that \<open>make_hollywood_movie\<close> raises \<open>AssertionError\<close> before any frame
  is drawn or written if and only if it is given ten or more decoded stacks. With one
  decoded stack and a single title the function raises \<open>AssertionError\<close> as well,
  before anything is drawn: the second assertion asks for \<open>N_samples + 1\<close> titles.
\<close>

theorem movie_assertion_few_stacks_counterexample:
  "make_hollywood_movie plain_libs
     \<lparr>real_image_stack = [3, 4, 4, 1], decoded_image_stacks = [[3, 4, 4, 1]],
      titles = Some [''Real''], same_vlim = True\<rparr>
     = (Some (AssertionError, 274), [])
   \<and> length (decoded_image_stacks
        \<lparr>real_image_stack = [3, 4, 4, 1], decoded_image_stacks = [[3, 4, 4, 1]],
         titles = Some [''Real''], same_vlim = True\<rparr>) < 10"
  by (simp add: make_hollywood_movie_def plain_libs_def vlims_def)

text \<open>
  Claim C9, amended. When matplotlib has an \<open>ffmpeg\<close> writer, the assertion of line 261
  raises \<open>AssertionError\<close>, with nothing drawn or written, if and only if there are ten
  or more decoded stacks; with fewer the check passes. The function also raises
  \<open>AssertionError\<close> with nothing drawn or written, at line 274, exactly when there are
  fewer than ten stacks, the colour limits were computed, and titles are given whose
  number is not \<open>N_samples + 1\<close>.
\<close>

theorem movie_assertions:
  assumes "ffmpeg_available libs"
  shows "((make_hollywood_movie libs args = (Some (AssertionError, 261), []))
            = (10 \<le> length (decoded_image_stacks args)))
     \<and> ((make_hollywood_movie libs args = (Some (AssertionError, 274), []))
            = (length (decoded_image_stacks args) < 10 \<and> vlims libs args = None
               \<and> (\<exists>ts. titles args = Some ts
                       \<and> length ts \<noteq> length (decoded_image_stacks args) + 1)))"
  using assms movie_first_check [of libs args] movie_second_check [of libs args]
  by simp

text \<open>Ten decoded stacks are refused; one stack with the default titles is drawn.\<close>

theorem movie_assertions_witness:
  "ffmpeg_available plain_libs
   \<and> make_hollywood_movie plain_libs
       \<lparr>real_image_stack = [3, 4, 4, 1], decoded_image_stacks = replicate 10 [3, 4, 4, 1],
        titles = None, same_vlim = True\<rparr>
     = (Some (AssertionError, 261), [])
   \<and> make_hollywood_movie plain_libs
       \<lparr>real_image_stack = [3, 4, 4, 1], decoded_image_stacks = [[3, 4, 4, 1]],
        titles = None, same_vlim = True\<rparr>
     = (None, [NewFigure, DrawImage 0, DrawImage 1, GrabFrame 1, GrabFrame 2])"
proof -
  have ff: "ffmpeg_available plain_libs"
    by (simp add: plain_libs_def)
  have one: "make_hollywood_movie plain_libs
       \<lparr>real_image_stack = [3, 4, 4, 1], decoded_image_stacks = [[3, 4, 4, 1]],
        titles = None, same_vlim = True\<rparr>
     = (None, [NewFigure, DrawImage 0, DrawImage 1, GrabFrame 1, GrabFrame 2])"
    by (simp add: make_hollywood_movie_def plain_libs_def vlims_def upt_rec)
  show ?thesis
    using ff one
      movie_assertions [OF ff, of "\<lparr>real_image_stack = [3, 4, 4, 1],
        decoded_image_stacks = replicate 10 [3, 4, 4, 1], titles = None, same_vlim = True\<rparr>"]
    by simp
qed

section \<open>Properties of \<open>preprocess_neural_data\<close>\<close>

lemma rows_length: "length (rows n m xs) = n"
  by (simp add: rows_def)

lemma rows_row_length:
  assumes "length xs = n * m" and "i < n"
  shows "length (rows n m xs ! i) = m"
proof -
  have "i * m + m \<le> n * m"
    using assms(2) by (metis Suc_leI mult_Suc mult_le_mono1 add.commute)
  then show ?thesis
    using assms by (simp add: rows_def)
qed

lemma rows_nth:
  assumes "length xs = n * m" and "i < n" and "j < m"
  shows "rows n m xs ! i ! j = xs ! (i * m + j)"
proof -
  have "i * m + m \<le> n * m"
    using assms(2) by (metis Suc_leI mult_Suc mult_le_mono1 add.commute)
  then show ?thesis
    using assms by (simp add: rows_def)
qed

lemma fold_max_length:
  "\<forall>row \<in> set rs. length row = length r \<Longrightarrow>
     length (fold (\<lambda>row acc. map2 max acc row) rs (r :: real list)) = length r"
  by (induction rs arbitrary: r) simp_all

lemma fold_max_ge_init:
  "\<forall>row \<in> set rs. length row = length r \<Longrightarrow> j < length r \<Longrightarrow>
     r ! j \<le> fold (\<lambda>row acc. map2 max acc row) rs (r :: real list) ! j"
proof (induction rs arbitrary: r)
  case Nil
  then show ?case by simp
next
  case (Cons row rs)
  have "map2 max r row ! j \<le> fold (\<lambda>row acc. map2 max acc row) rs (map2 max r row) ! j"
    using Cons.prems by (intro Cons.IH) simp_all
  moreover have "r ! j \<le> map2 max r row ! j"
    using Cons.prems by simp
  ultimately show ?case by simp
qed

lemma fold_max_ge_row:
  "\<forall>row \<in> set rs. length row = length r \<Longrightarrow> j < length r \<Longrightarrow> row \<in> set rs \<Longrightarrow>
     row ! j \<le> fold (\<lambda>row acc. map2 max acc row) rs (r :: real list) ! j"
proof (induction rs arbitrary: r)
  case Nil
  then show ?case by simp
next
  case (Cons row' rs)
  let ?r' = "map2 max r row'"
  have len: "\<forall>x \<in> set rs. length x = length ?r'" "j < length ?r'"
    using Cons.prems by simp_all
  show ?case
  proof (cases "row = row'")
    case True
    have "row' ! j \<le> ?r' ! j"
      using Cons.prems by simp
    also have "\<dots> \<le> fold (\<lambda>row acc. map2 max acc row) rs ?r' ! j"
      using len by (rule fold_max_ge_init)
    finally show ?thesis using True by simp
  next
    case False
    then have "row \<in> set rs" using Cons.prems by simp
    then show ?thesis
      using Cons.IH [OF len] by simp
  qed
qed

lemma fold_max_pred:
  "\<forall>row \<in> set rs. length row = length r \<and> (\<forall>j < length r. Q (row ! j)) \<Longrightarrow>
   \<forall>j < length r. Q (r ! j) \<Longrightarrow> j < length r \<Longrightarrow>
     Q (fold (\<lambda>row acc. map2 max acc row) rs (r :: real list) ! j)"
proof (induction rs arbitrary: r)
  case Nil
  then show ?case by simp
next
  case (Cons row rs)
  let ?r' = "map2 max r row"
  have "\<forall>i < length ?r'. Q (?r' ! i)"
    using Cons.prems by (simp add: max_def)
  moreover have "\<forall>x \<in> set rs. length x = length ?r' \<and> (\<forall>i < length ?r'. Q (x ! i))"
    using Cons.prems by simp
  moreover have "j < length ?r'"
    using Cons.prems by simp
  ultimately show ?case
    using Cons.IH [of ?r'] by simp
qed

lemma elementwise_max_length:
  "rws \<noteq> [] \<Longrightarrow> \<forall>row \<in> set rws. length row = m \<Longrightarrow> length (elementwise_max rws) = m"
  by (cases rws) (simp_all add: elementwise_max_def fold_max_length)

lemma elementwise_max_ge:
  assumes "\<forall>row \<in> set rws. length row = m" and "row \<in> set rws" and "j < m"
  shows "row ! j \<le> elementwise_max rws ! j"
proof (cases rws)
  case Nil
  then show ?thesis using assms by simp
next
  case (Cons r rs)
  then show ?thesis
    using assms fold_max_ge_init [of rs r j] fold_max_ge_row [of rs r j row]
    by (auto simp: elementwise_max_def)
qed

lemma elementwise_max_pred:
  assumes "\<forall>row \<in> set rws. length row = m \<and> (\<forall>j < m. Q (row ! j))" and "rws \<noteq> []" and "j < m"
  shows "Q (elementwise_max rws ! j)"
proof (cases rws)
  case Nil
  then show ?thesis using assms by simp
next
  case (Cons r rs)
  then show ?thesis
    using assms fold_max_pred [of rs r Q j]
    by (auto simp: elementwise_max_def)
qed

lemma rows_all_lengths:
  assumes "length xs = n * m"
  shows "\<forall>row \<in> set (rows n m xs). length row = m"
proof
  fix row assume "row \<in> set (rows n m xs)"
  then obtain i where "i < n" "row = rows n m xs ! i"
    by (metis in_set_conv_nth rows_length)
  then show "length row = m"
    using rows_row_length [OF assms] by simp
qed

lemma amax0_dims:
  assumes "np_amax0 a = Inr m" and "dims a = n # rest" and "well_shaped a"
  shows "dims m = rest \<and> well_shaped m"
proof (cases "n = 0")
  case True
  then have "prod_list rest = 0" "m = \<lparr>dims = rest, vals = elementwise_max (rows 0 (prod_list rest) (vals a))\<rparr>"
    using assms by (auto simp: np_amax0_def split: if_splits)
  then show ?thesis
    by (simp add: well_shaped_def rows_def elementwise_max_def)
next
  case False
  let ?M = "prod_list rest"
  have len: "length (vals a) = n * ?M"
    using assms(2,3) by (simp add: well_shaped_def)
  have m: "m = \<lparr>dims = rest, vals = elementwise_max (rows n ?M (vals a))\<rparr>"
    using assms False by (auto simp: np_amax0_def)
  have "rows n ?M (vals a) \<noteq> []"
    using False rows_length [of n ?M "vals a"] by auto
  then have "length (elementwise_max (rows n ?M (vals a))) = ?M"
    using rows_all_lengths [OF len] by (rule elementwise_max_length)
  then show ?thesis
    using m by (simp add: well_shaped_def)
qed

lemma amax0_ge:
  assumes "np_amax0 a = Inr m" and "dims a = n # rest" and "well_shaped a"
    and "k < length (vals a)"
  shows "vals a ! k \<le> vals m ! (k mod prod_list rest)"
proof -
  let ?M = "prod_list rest"
  have len: "length (vals a) = n * ?M"
    using assms(2,3) by (simp add: well_shaped_def)
  have kn: "k < n * ?M"
    using assms(4) len by simp
  have pos: "0 < ?M" "0 < n"
  proof -
    show "0 < ?M" using kn by (cases "?M = 0") simp_all
    show "0 < n" using kn by (cases "n = 0") simp_all
  qed
  have m: "vals m = elementwise_max (rows n ?M (vals a))"
    using assms(1,2) pos by (auto simp: np_amax0_def)
  have i: "k div ?M < n"
    using kn by (rule less_mult_imp_div_less)
  have j: "k mod ?M < ?M"
    using pos by simp
  have "rows n ?M (vals a) ! (k div ?M) \<in> set (rows n ?M (vals a))"
    using i by (simp add: rows_length)
  then have "rows n ?M (vals a) ! (k div ?M) ! (k mod ?M)
               \<le> elementwise_max (rows n ?M (vals a)) ! (k mod ?M)"
    using rows_all_lengths [OF len] j by (intro elementwise_max_ge) auto
  moreover have "rows n ?M (vals a) ! (k div ?M) ! (k mod ?M) = vals a ! k"
    using rows_nth [OF len i j] by simp
  ultimately show ?thesis
    using m by simp
qed

lemma amax0_pred:
  assumes "np_amax0 a = Inr m" and "dims a = n # rest" and "well_shaped a"
    and "\<forall>v \<in> set (vals a). Q v"
  shows "\<forall>v \<in> set (vals m). Q v"
proof (cases "n = 0")
  case True
  then have "vals m = []"
    using assms(1,2) by (auto simp: np_amax0_def rows_def elementwise_max_def split: if_splits)
  then show ?thesis by simp
next
  case False
  let ?M = "prod_list rest"
  let ?R = "rows n ?M (vals a)"
  have len: "length (vals a) = n * ?M"
    using assms(2,3) by (simp add: well_shaped_def)
  have m: "vals m = elementwise_max ?R"
    using assms(1,2) False by (auto simp: np_amax0_def)
  have ne: "?R \<noteq> []"
    using False rows_length [of n ?M "vals a"] by auto
  have rowsQ: "\<forall>row \<in> set ?R. length row = ?M \<and> (\<forall>j < ?M. Q (row ! j))"
  proof
    fix row assume "row \<in> set ?R"
    then obtain i where i: "i < n" "row = ?R ! i"
      by (metis in_set_conv_nth rows_length)
    have "Q (row ! j)" if "j < ?M" for j
    proof -
      have "i * ?M + j < n * ?M"
      proof -
        have "i * ?M + j < i * ?M + ?M" using that by simp
        also have "\<dots> = Suc i * ?M" by simp
        also have "\<dots> \<le> n * ?M" using i(1) by (intro mult_le_mono1) simp
        finally show ?thesis .
      qed
      then have "vals a ! (i * ?M + j) \<in> set (vals a)"
        using len by simp
      then show ?thesis
        using assms(4) rows_nth [OF len i(1) that] i(2) by simp
    qed
    then show "length row = ?M \<and> (\<forall>j < ?M. Q (row ! j))"
      using rows_row_length [OF len i(1)] i(2) by simp
  qed
  have lenm: "length (elementwise_max ?R) = ?M"
    using ne rows_all_lengths [OF len] by (rule elementwise_max_length)
  show ?thesis
  proof
    fix v assume "v \<in> set (vals m)"
    then obtain j where "j < ?M" "v = elementwise_max ?R ! j"
      using m lenm by (metis in_set_conv_nth)
    then show "Q v"
      using elementwise_max_pred [OF rowsQ ne] by simp
  qed
qed

lemma amax0_returns:
  "dims a = n # rest \<Longrightarrow> 0 < n \<Longrightarrow> \<exists>m. np_amax0 a = Inr m"
  by (simp add: np_amax0_def)

lemma normalize_rates_returns:
  assumes ok: "smoother_ok gf" and wf: "well_shaped a" and d: "dims a = [n, t, d]"
    and n: "0 < n" and t: "0 < t"
  shows "\<exists>rates mr.
      normalize_rates gf a fs window = Inr (rates, mr, divide_last_axis rates mr)
    \<and> dims rates = [n, t, d] \<and> length (vals rates) = n * t * d
    \<and> vals rates = map (\<lambda>v. v * fs) (vals (gf a (py_int (window * fs)) 1))
    \<and> dims mr = [d] \<and> length (vals mr) = d
    \<and> (\<forall>k < n * t * d. vals rates ! k \<le> vals mr ! (k mod d))
    \<and> ((\<forall>v \<in> set (vals rates). Q v) \<longrightarrow> (\<forall>v \<in> set (vals mr). Q v))"
proof -
  define sm where "sm = gf a (py_int (window * fs)) 1"
  define rates where "rates = sm\<lparr>vals := map (\<lambda>v. v * fs) (vals sm)\<rparr>"
  have "dims sm = dims a" "length (vals sm) = length (vals a)"
    using ok unfolding smoother_ok_def sm_def by blast+
  then have sm: "dims sm = [n, t, d]" "length (vals sm) = n * t * d"
    using wf d by (simp_all add: well_shaped_def)
  have rd: "dims rates = [n, t, d]" and rl: "length (vals rates) = n * t * d"
    and rv: "vals rates = map (\<lambda>v. v * fs) (vals (gf a (py_int (window * fs)) 1))"
    using sm by (simp_all add: rates_def sm_def)
  have rwf: "well_shaped rates"
    using rd rl by (simp add: well_shaped_def)
  obtain m0 where m0: "np_amax0 rates = Inr m0"
    using amax0_returns [OF rd n] by blast
  have m0d: "dims m0 = [t, d]" and m0wf: "well_shaped m0"
    using amax0_dims [OF m0 rd rwf] by simp_all
  have m0l: "length (vals m0) = t * d"
    using m0d m0wf by (simp add: well_shaped_def)
  obtain mr where mr: "np_amax0 m0 = Inr mr"
    using amax0_returns [OF m0d t] by blast
  have mrd: "dims mr = [d]" and mrwf: "well_shaped mr"
    using amax0_dims [OF mr m0d m0wf] by simp_all
  have mrl: "length (vals mr) = d"
    using mrd mrwf by (simp add: well_shaped_def)
  have run: "normalize_rates gf a fs window = Inr (rates, mr, divide_last_axis rates mr)"
    unfolding normalize_rates_def Let_def sm_def [symmetric] rates_def [symmetric]
    by (simp add: m0 mr)
  have dom: "\<forall>k < n * t * d. vals rates ! k \<le> vals mr ! (k mod d)"
  proof (intro allI impI)
    fix k assume k: "k < n * t * d"
    have "k < n * (t * d)"
      using k by (simp add: mult.assoc)
    then have td: "0 < t * d"
      by (cases "t * d = 0") simp_all
    have k1: "k < length (vals rates)"
      using k rl by simp
    have k2: "k mod (t * d) < length (vals m0)"
      using td m0l by simp
    have "vals rates ! k \<le> vals m0 ! (k mod prod_list [t, d])"
      using m0 rd rwf k1 by (rule amax0_ge)
    then have "vals rates ! k \<le> vals m0 ! (k mod (t * d))"
      by simp
    also have "vals m0 ! (k mod (t * d)) \<le> vals mr ! (k mod (t * d) mod prod_list [d])"
      using mr m0d m0wf k2 by (rule amax0_ge)
    also have "k mod (t * d) mod prod_list [d] = k mod d"
      by (simp add: mod_mod_cancel)
    finally show "vals rates ! k \<le> vals mr ! (k mod d)" .
  qed
  have nonneg: "(\<forall>v \<in> set (vals rates). Q v) \<longrightarrow> (\<forall>v \<in> set (vals mr). Q v)"
  proof
    assume "\<forall>v \<in> set (vals rates). Q v"
    with m0 rd rwf have "\<forall>v \<in> set (vals m0). Q v"
      by (rule amax0_pred)
    with mr m0d m0wf show "\<forall>v \<in> set (vals mr). Q v"
      by (rule amax0_pred)
  qed
  from run rd rl rv mrd mrl dom nonneg show ?thesis
    by blast
qed

lemma preprocess_unfold:
  assumes "dims a = [n, t, d]" and "normalize_rates gf a fs window = Inr (rates, mr, nr)"
    and "prod_list (dims nr) = n * t * d"
  shows "preprocess_neural_data gf a fs window =
     (if 0 \<in> set (vals mr) \<or> \<not> (20 \<le> n * t \<and> 20 \<le> d) then Inl ValueError
      else Inr (nr, [n, t, 20], mr))"
  using assms
  by (simp add: preprocess_neural_data_def np_reshape_def pca_fit_transform_dims_def mult.assoc)

lemma divide_last_axis_dims:
  "dims (divide_last_axis a b) = dims a \<and> length (vals (divide_last_axis a b)) = length (vals a)"
  by (simp add: divide_last_axis_def)

lemma preprocess_returns_normalized:
  assumes ok: "smoother_ok gf" and wf: "well_shaped a"
    and ret: "preprocess_neural_data gf a fs window = Inr (nr, lowd, mr)"
  shows "\<exists>n t d rates. dims a = [n, t, d]
      \<and> normalize_rates gf a fs window = Inr (rates, mr, nr)
      \<and> 0 \<notin> set (vals mr) \<and> 20 \<le> n * t \<and> 20 \<le> d \<and> lowd = [n, t, 20]"
proof -
  obtain n t d where d: "dims a = [n, t, d]"
    using ret by (auto simp: preprocess_neural_data_def split: list.splits)
  obtain rates mr' nr' where run: "normalize_rates gf a fs window = Inr (rates, mr', nr')"
    using ret d
    by (cases "normalize_rates gf a fs window") (auto simp: preprocess_neural_data_def)
  have "20 \<le> n * t \<and> 20 \<le> d"
    using ret d run
    by (auto simp: preprocess_neural_data_def np_reshape_def pca_fit_transform_dims_def
        split: if_splits)
  then have nt: "20 \<le> n * t" and nd: "20 \<le> d"
    by simp_all
  have n: "0 < n"
    using nt by (cases "n = 0") simp_all
  have t: "0 < t"
    using nt by (cases "t = 0") simp_all
  obtain rates2 mr2 where run2:
    "normalize_rates gf a fs window = Inr (rates2, mr2, divide_last_axis rates2 mr2)"
    and rd: "dims rates2 = [n, t, d]"
    using normalize_rates_returns [OF ok wf d n t, of fs window "\<lambda>v. True"] by blast
  have "Inr (rates, mr', nr') = (Inr (rates2, mr2, divide_last_axis rates2 mr2)
           :: error + ndarray \<times> ndarray \<times> ndarray)"
    using run run2 by (rule trans [OF sym])
  then have eqs: "rates = rates2" "mr' = mr2" "nr' = divide_last_axis rates2 mr2"
    by simp_all
  have "prod_list (dims nr') = n * t * d"
    using eqs rd by (simp add: divide_last_axis_dims)
  from preprocess_unfold [OF d run this] ret
  have "mr' = mr \<and> nr' = nr \<and> 0 \<notin> set (vals mr') \<and> lowd = [n, t, 20]"
    by (simp split: if_splits)
  then show ?thesis
    using d run nt nd by blast
qed

lemma divide_last_axis_nth:
  "k < length (vals a) \<Longrightarrow>
     vals (divide_last_axis a b) ! k = vals a ! k / vals b ! (k mod length (vals b))"
  by (simp add: divide_last_axis_def)

lemma no_smoothing_ok: "smoother_ok no_smoothing"
  by (simp add: smoother_ok_def no_smoothing_def)

lemma demo_counts_shape:
  "well_shaped demo_counts" "dims demo_counts = [2, 10, 20]"
  "\<forall>v \<in> set (vals demo_counts). 0 < v"
  by (simp_all add: well_shaped_def demo_counts_def)

lemma demo_pos: "0 < (2::nat)" "0 < (10::nat)"
  by simp_all

lemma demo_peaks:
  assumes "normalize_rates no_smoothing demo_counts 40 (1 / 10) = Inr (rates, mr, nr)"
  shows "0 \<notin> set (vals mr)"
proof -
  obtain rates2 mr2 where run2:
      "normalize_rates no_smoothing demo_counts 40 (1 / 10)
         = Inr (rates2, mr2, divide_last_axis rates2 mr2)"
    and rv: "vals rates2 = map (\<lambda>v. v * 40) (vals (no_smoothing demo_counts (py_int (1 / 10 * 40)) 1))"
    and pos: "(\<forall>v \<in> set (vals rates2). 0 < v) \<longrightarrow> (\<forall>v \<in> set (vals mr2). 0 < v)"
    using normalize_rates_returns [OF no_smoothing_ok demo_counts_shape(1,2) demo_pos, of 40 "1 / 10"
        "\<lambda>v. 0 < v"]
    by blast
  have "Inr (rates, mr, nr) = (Inr (rates2, mr2, divide_last_axis rates2 mr2)
           :: error + ndarray \<times> ndarray \<times> ndarray)"
    using assms run2 by (rule trans [OF sym])
  then have eq: "mr2 = mr" by simp
  have "\<forall>v \<in> set (vals rates2). 0 < v"
    using demo_counts_shape(3) by (simp add: rv no_smoothing_def)
  then have "\<forall>v \<in> set (vals mr). 0 < v"
    using pos eq by blast
  then show ?thesis by auto
qed

lemma demo_returns:
  "\<exists>nr mr. preprocess_neural_data no_smoothing demo_counts 40 (1 / 10) = Inr (nr, [2, 10, 20], mr)"
proof -
  obtain rates mr where run:
      "normalize_rates no_smoothing demo_counts 40 (1 / 10)
         = Inr (rates, mr, divide_last_axis rates mr)"
    and rd: "dims rates = [2, 10, 20]"
    using normalize_rates_returns [OF no_smoothing_ok demo_counts_shape(1,2) demo_pos, of 40 "1 / 10"
        "\<lambda>v. True"]
    by blast
  have "prod_list (dims (divide_last_axis rates mr)) = 2 * 10 * 20"
    using rd by (simp add: divide_last_axis_dims)
  from preprocess_unfold [OF demo_counts_shape(2) run this] demo_peaks [OF run]
  show ?thesis by simp
qed

lemma normalize_rates_example:
  "normalize_rates no_smoothing \<lparr>dims = [2, 2, 2], vals = [1, 0, 2, 4, 3, 1, 0, 8]\<rparr> 40 (1 / 10)
     = Inr (\<lparr>dims = [2, 2, 2], vals = [40, 0, 80, 160, 120, 40, 0, 320]\<rparr>,
            \<lparr>dims = [2], vals = [120, 320]\<rparr>,
            \<lparr>dims = [2, 2, 2], vals = [1 / 3, 0, 2 / 3, 1 / 2, 1, 1 / 8, 0, 1]\<rparr>)"
  by code_simp

lemma short_counts_shape:
  "well_shaped short_counts" "dims short_counts = [1, 19, 20]"
  by (simp_all add: well_shaped_def short_counts_def)

lemma short_pos: "0 < (1::nat)" "0 < (19::nat)"
  by simp_all

lemma preprocess_single_sample_example:
  "preprocess_neural_data no_smoothing \<lparr>dims = [1, 1, 20], vals = replicate 20 1\<rparr> 40 (1 / 10)
       = Inl ValueError"
  by code_simp

text \<open>
  Claim C4 says that every input of shape (trials, time, neurons) with at least 20 neurons
  gives a trajectory of shape (trials, time, 20). One trial of 19 time steps with 20
  neurons has such a shape; it has 19 pooled samples, fewer than the 20 components asked
  for, and \<open>PCA.fit\<close> raises \<open>ValueError\<close>.
\<close>

theorem preprocess_few_samples_counterexample:
  "well_shaped short_counts \<and> dims short_counts = [1, 19, 20]
   \<and> preprocess_neural_data no_smoothing short_counts 40 (1 / 10) = Inl ValueError"
proof -
  obtain rates mr where run:
      "normalize_rates no_smoothing short_counts 40 (1 / 10)
         = Inr (rates, mr, divide_last_axis rates mr)"
    and rd: "dims rates = [1, 19, 20]"
    using normalize_rates_returns [OF no_smoothing_ok short_counts_shape short_pos, of 40 "1 / 10"
        "\<lambda>v. True"]
    by blast
  have "prod_list (dims (divide_last_axis rates mr)) = 1 * 19 * 20"
    using rd by (simp add: divide_last_axis_dims)
  from preprocess_unfold [OF short_counts_shape(2) run this]
  have "preprocess_neural_data no_smoothing short_counts 40 (1 / 10) = Inl ValueError"
    by simp
  then show ?thesis
    using short_counts_shape by simp
qed

text \<open>
  Claim C4, amended. For every well-shaped input of shape (trials, time, neurons) with at
  least 20 neurons, at least 20 pooled samples (trials times time) and no neuron whose
  peak rate is zero, \<open>preprocess_neural_data\<close> returns, and the low-dimensional
  trajectory it returns has shape (trials, time, 20).
\<close>

theorem preprocess_lowd_shape:
  assumes ok: "smoother_ok gf" and wf: "well_shaped a" and d: "dims a = [n, t, d]"
    and nd: "20 \<le> d" and nt: "20 \<le> n * t"
    and peaks: "\<forall>rates mr nr. normalize_rates gf a fs window = Inr (rates, mr, nr)
                  \<longrightarrow> 0 \<notin> set (vals mr)"
  shows "\<exists>nr mr. preprocess_neural_data gf a fs window = Inr (nr, [n, t, 20], mr)"
proof -
  have n: "0 < n"
    using nt by (cases "n = 0") simp_all
  have t: "0 < t"
    using nt by (cases "t = 0") simp_all
  obtain rates mr where run: "normalize_rates gf a fs window = Inr (rates, mr, divide_last_axis rates mr)"
    and rd: "dims rates = [n, t, d]"
    using normalize_rates_returns [OF ok wf d n t, of fs window "\<lambda>v. True"] by blast
  have nz: "0 \<notin> set (vals mr)"
    using peaks run by blast
  have "prod_list (dims (divide_last_axis rates mr)) = n * t * d"
    using rd by (simp add: divide_last_axis_dims)
  from preprocess_unfold [OF d run this]
  have "preprocess_neural_data gf a fs window = Inr (divide_last_axis rates mr, [n, t, 20], mr)"
    using nz nd nt by simp
  then show ?thesis by blast
qed

text \<open>The demonstration counts: 2 trials of 10 time steps, 20 neurons.\<close>

theorem preprocess_lowd_shape_witness:
  "smoother_ok no_smoothing \<and> well_shaped demo_counts \<and> dims demo_counts = [2, 10, 20]
   \<and> (\<exists>nr mr. preprocess_neural_data no_smoothing demo_counts 40 (1 / 10)
                 = Inr (nr, [2, 10, 20], mr))"
proof -
  have peaks: "\<forall>rates mr nr. normalize_rates no_smoothing demo_counts 40 (1 / 10) = Inr (rates, mr, nr)
                  \<longrightarrow> 0 \<notin> set (vals mr)"
    using demo_peaks by blast
  have "\<exists>nr mr. preprocess_neural_data no_smoothing demo_counts 40 (1 / 10)
                 = Inr (nr, [2, 10, 20], mr)"
    using preprocess_lowd_shape [OF no_smoothing_ok demo_counts_shape(1,2) _ _ peaks] by simp
  then show ?thesis
    using no_smoothing_ok demo_counts_shape by simp
qed

text \<open>
  Claim C5. For every array of non-negative counts and every positive sampling rate, when
  \<open>preprocess_neural_data\<close> returns (so that no neuron has a zero peak rate), the
  normalized rates it returns have, for every neuron, a maximum over all trials and time
  steps (computed as the code computes \<open>max_rates\<close>) that is at most 1.
\<close>

theorem normalized_rates_at_most_one:
  assumes ok: "smoother_ok gf" and wf: "well_shaped a"
    and counts: "\<forall>v \<in> set (vals a). 0 \<le> v" and fs: "0 < fs"
    and ret: "preprocess_neural_data gf a fs window = Inr (nr, lowd, mr)"
  shows "\<exists>n t d over_trials peak.
      dims a = [n, t, d]
    \<and> np_amax0 nr = Inr over_trials \<and> np_amax0 over_trials = Inr peak
    \<and> dims peak = [d] \<and> length (vals peak) = d
    \<and> (\<forall>j < d. vals peak ! j \<le> 1)"
proof -
  obtain n t d rates where d: "dims a = [n, t, d]"
    and run: "normalize_rates gf a fs window = Inr (rates, mr, nr)"
    and nz: "0 \<notin> set (vals mr)" and nt: "20 \<le> n * t"
    using preprocess_returns_normalized [OF ok wf ret] by blast
  have n: "0 < n"
    using nt by (cases "n = 0") simp_all
  have t: "0 < t"
    using nt by (cases "t = 0") simp_all
  obtain rates2 mr2 where run2:
      "normalize_rates gf a fs window = Inr (rates2, mr2, divide_last_axis rates2 mr2)"
    and rd2: "dims rates2 = [n, t, d]" and rl2: "length (vals rates2) = n * t * d"
    and rv2: "vals rates2 = map (\<lambda>v. v * fs) (vals (gf a (py_int (window * fs)) 1))"
    and mrl2: "length (vals mr2) = d"
    and dom2: "\<forall>k < n * t * d. vals rates2 ! k \<le> vals mr2 ! (k mod d)"
    and nonneg2: "(\<forall>v \<in> set (vals rates2). 0 \<le> v) \<longrightarrow> (\<forall>v \<in> set (vals mr2). 0 \<le> v)"
    using normalize_rates_returns [OF ok wf d n t, of fs window "\<lambda>v. 0 \<le> v"] by blast
  have "Inr (rates, mr, nr) = (Inr (rates2, mr2, divide_last_axis rates2 mr2)
           :: error + ndarray \<times> ndarray \<times> ndarray)"
    using run run2 by (rule trans [OF sym])
  then have eqs: "rates2 = rates" "mr2 = mr" "nr = divide_last_axis rates mr"
    by simp_all
  note rd = rd2 [unfolded eqs] and rl = rl2 [unfolded eqs] and rv = rv2 [unfolded eqs]
    and mrl = mrl2 [unfolded eqs] and dom = dom2 [unfolded eqs] and nonneg = nonneg2 [unfolded eqs]
  have "\<forall>v \<in> set (vals (gf a (py_int (window * fs)) 1)). 0 \<le> v"
    using ok counts unfolding smoother_ok_def by blast
  then have "\<forall>v \<in> set (vals rates). 0 \<le> v"
    using fs by (simp add: rv)
  then have mr_nonneg: "\<forall>v \<in> set (vals mr). 0 \<le> v"
    using nonneg by blast
  have mr_pos: "0 < vals mr ! j" if "j < d" for j
  proof -
    have "vals mr ! j \<in> set (vals mr)"
      using that mrl by simp
    then have "0 \<le> vals mr ! j" "vals mr ! j \<noteq> 0"
      using mr_nonneg nz by auto
    then show ?thesis by simp
  qed
  have nrd: "dims nr = [n, t, d]" and nrl: "length (vals nr) = n * t * d"
    using eqs(3) rd rl by (simp_all add: divide_last_axis_dims)
  have nrwf: "well_shaped nr"
    using nrd nrl by (simp add: well_shaped_def)
  have le1: "\<forall>v \<in> set (vals nr). v \<le> 1"
  proof
    fix v assume "v \<in> set (vals nr)"
    then obtain k where k: "k < n * t * d" and v: "v = vals nr ! k"
      using nrl by (metis in_set_conv_nth)
    have "k < n * (t * d)"
      using k by (simp add: mult.assoc)
    then have dpos: "0 < d"
      by (cases "d = 0") simp_all
    have "vals nr ! k = vals rates ! k / vals mr ! (k mod d)"
      using divide_last_axis_nth [of k rates mr] k rl mrl eqs(3) by simp
    moreover have "vals rates ! k \<le> vals mr ! (k mod d)"
      using dom k by blast
    moreover have "0 < vals mr ! (k mod d)"
      using mr_pos [of "k mod d"] dpos by simp
    ultimately show "v \<le> 1"
      using v by simp
  qed
  obtain m1 where m1: "np_amax0 nr = Inr m1"
    using amax0_returns [OF nrd n] by blast
  have m1d: "dims m1 = [t, d]" and m1wf: "well_shaped m1"
    using amax0_dims [OF m1 nrd nrwf] by simp_all
  have m1le: "\<forall>v \<in> set (vals m1). v \<le> 1"
    using m1 nrd nrwf le1 by (rule amax0_pred)
  obtain m2 where m2: "np_amax0 m1 = Inr m2"
    using amax0_returns [OF m1d t] by blast
  have m2d: "dims m2 = [d]" and m2wf: "well_shaped m2"
    using amax0_dims [OF m2 m1d m1wf] by simp_all
  have m2l: "length (vals m2) = d"
    using m2d m2wf by (simp add: well_shaped_def)
  have "\<forall>v \<in> set (vals m2). v \<le> 1"
    using m2 m1d m1wf m1le by (rule amax0_pred)
  then have "\<forall>j < d. vals m2 ! j \<le> 1"
    using m2l by simp
  then show ?thesis
    using d m1 m2 m2d m2l by blast
qed

text \<open>The demonstration counts again.\<close>

theorem normalized_rates_at_most_one_witness:
  "smoother_ok no_smoothing \<and> well_shaped demo_counts
   \<and> list_all (\<lambda>v. 0 \<le> v) (vals demo_counts)
   \<and> (\<exists>nr mr over_trials peak.
         preprocess_neural_data no_smoothing demo_counts 40 (1 / 10) = Inr (nr, [2, 10, 20], mr)
       \<and> np_amax0 nr = Inr over_trials \<and> np_amax0 over_trials = Inr peak
       \<and> dims peak = [20] \<and> length (vals peak) = 20 \<and> (\<forall>j < 20. vals peak ! j \<le> 1))"
proof -
  obtain nr mr where ret:
    "preprocess_neural_data no_smoothing demo_counts 40 (1 / 10) = Inr (nr, [2, 10, 20], mr)"
    using demo_returns by blast
  have counts: "\<forall>v \<in> set (vals demo_counts). 0 \<le> v"
    using demo_counts_shape(3) by (simp add: less_imp_le)
  have "\<exists>n t d over_trials peak.
      dims demo_counts = [n, t, d]
    \<and> np_amax0 nr = Inr over_trials \<and> np_amax0 over_trials = Inr peak
    \<and> dims peak = [d] \<and> length (vals peak) = d
    \<and> (\<forall>j < d. vals peak ! j \<le> 1)"
    using normalized_rates_at_most_one [OF no_smoothing_ok demo_counts_shape(1) counts _ ret] by simp
  then obtain over_trials peak where
    "np_amax0 nr = Inr over_trials" "np_amax0 over_trials = Inr peak"
    "dims peak = [20]" "length (vals peak) = 20" "\<forall>j < 20. vals peak ! j \<le> 1"
    using demo_counts_shape(2) by auto
  moreover have "list_all (\<lambda>v. 0 \<le> v) (vals demo_counts)"
    using counts by (simp add: list_all_iff)
  ultimately show ?thesis
    using no_smoothing_ok demo_counts_shape(1) ret by blast
qed

end
